theory Spec2Isabelle
  imports Main "HOL-Library.Word"
begin

section \<open>The workspace object client (client/service/notebooks.go)\<close>

subsection \<open>Data model\<close>

text \<open>
  Modelled from the spec: the package \<open>model\<close> (the declarations of \<open>ObjectType\<close>,
  \<open>Language\<close>, \<open>ExportFormat\<close>, \<open>WorkspaceObjectStatus\<close>, \<open>NotebookContent\<close>,
  \<open>NotebookImportRequest\<close> and \<open>NotebookDeleteRequest\<close>) is not among the sources.
  The spec describes an object descriptor with a path, a type (notebook or directory), a
  language and a format, a content blob, and request envelopes whose fields are path,
  content, language, format, overwrite and recursive. Languages and formats are strings.
  The object type arrives from JSON, so values other than the two constants
  \<open>model.Notebook\<close> and \<open>model.Directory\<close> that the code compares against are possible:
  they are \<open>OtherType\<close>.
\<close>

datatype ObjectType = Notebook | Directory | OtherType string

type_synonym Language = string
type_synonym ExportFormat = string
type_synonym bytes = "8 word list"

record WorkspaceObjectStatus =
  ObjectType :: ObjectType
  Path :: string
  Language :: Language
  Format :: ExportFormat

record NotebookContent =
  Content :: string

record NotebookImportRequest =
  Content :: string
  Path :: string
  Language :: Language
  Overwrite :: bool
  Format :: ExportFormat

record NotebookDeleteRequest =
  Path :: string
  Recursive :: bool

text \<open>
  The \<open>data\<close> argument of \<open>performQuery\<close>: one constructor per request struct the file
  builds. Get-status, mkdirs and list all send the same anonymous struct with the single
  field \<open>Path\<close>; export sends \<open>Path\<close> and \<open>Format\<close>.
\<close>

datatype payload =
    ImportData NotebookImportRequest
  | PathData string
  | ExportData string ExportFormat
  | DeleteData NotebookDeleteRequest

datatype http_method = MethodGet | MethodPost

text \<open>
  One call of \<open>performQuery\<close>; \<open>httpMethod\<close> is its first argument. The \<open>headers\<close> and
  \<open>secretsMask\<close> arguments are \<open>nil\<close> at every call site of the file and are left out.
\<close>

record request =
  httpMethod :: http_method
  endpoint :: string
  apiVersion :: string
  data :: payload

subsection \<open>The remote side\<close>

text \<open>
  \<open>DBApiClient.performQuery\<close> and \<open>json.Unmarshal\<close> are outside the file; they are
  parameters. A Go result \<open>(value, err)\<close> is a pair whose second component is \<open>None\<close> for
  \<open>nil\<close>; the error type \<open>'e\<close> is left open. The remote may answer the same request
  differently over time, so a client is a function of all earlier exchanges and of the
  request; the state threaded through the operations is that history, to which every
  call adds one entry. A decoder gives the value left in the target of \<open>json.Unmarshal\<close>
  (which starts as the zero value) together with the error. A \<open>nil\<close> slice is \<open>[]\<close>.
\<close>

type_synonym 'e response = "bytes \<times> 'e option"
type_synonym 'e history = "(request \<times> 'e response) list"
type_synonym 'e client = "'e history \<Rightarrow> request \<Rightarrow> 'e response"
type_synonym ('a, 'e) unmarshal = "bytes \<Rightarrow> 'a \<times> 'e option"

definition performQuery :: "'e client \<Rightarrow> request \<Rightarrow> 'e history \<Rightarrow> 'e response \<times> 'e history" where
  "performQuery c req h = (let r = c h req in (r, h @ [(req, r)]))"

subsection \<open>The operations\<close>

definition import_request :: "string \<Rightarrow> string \<Rightarrow> Language \<Rightarrow> ExportFormat \<Rightarrow> bool \<Rightarrow> request" where
  "import_request path content language format overwrite =
     \<lparr>httpMethod = MethodPost, endpoint = ''/workspace/import'', apiVersion = ''2.0'',
      data = ImportData \<lparr>Content = content, Path = path, Language = language,
                         Overwrite = overwrite, Format = format\<rparr>\<rparr>"

definition Create ::
  "'e client \<Rightarrow> string \<Rightarrow> string \<Rightarrow> Language \<Rightarrow> ExportFormat \<Rightarrow> bool \<Rightarrow> 'e history
     \<Rightarrow> 'e option \<times> 'e history" where
  "Create c path content language format overwrite h =
     (let ((resp, err), h') = performQuery c (import_request path content language format overwrite) h
      in (err, h'))"

definition get_status_request :: "string \<Rightarrow> request" where
  "get_status_request path =
     \<lparr>httpMethod = MethodGet, endpoint = ''/workspace/get-status'', apiVersion = ''2.0'',
      data = PathData path\<rparr>"

definition zero_status :: WorkspaceObjectStatus where
  "zero_status = \<lparr>ObjectType = OtherType [], Path = [], Language = [], Format = []\<rparr>"

definition Read ::
  "'e client \<Rightarrow> (WorkspaceObjectStatus, 'e) unmarshal \<Rightarrow> string \<Rightarrow> 'e history
     \<Rightarrow> (WorkspaceObjectStatus \<times> 'e option) \<times> 'e history" where
  "Read c unmarshal path h =
     (let ((resp, err), h') = performQuery c (get_status_request path) h
      in case err of
           Some e \<Rightarrow> ((zero_status, Some e), h')
         | None \<Rightarrow> (unmarshal resp, h'))"

definition export_request :: "string \<Rightarrow> ExportFormat \<Rightarrow> request" where
  "export_request path format =
     \<lparr>httpMethod = MethodGet, endpoint = ''/workspace/export'', apiVersion = ''2.0'',
      data = ExportData path format\<rparr>"

definition Export ::
  "'e client \<Rightarrow> (NotebookContent, 'e) unmarshal \<Rightarrow> string \<Rightarrow> ExportFormat \<Rightarrow> 'e history
     \<Rightarrow> (string \<times> 'e option) \<times> 'e history" where
  "Export c unmarshal path format h =
     (let ((resp, err), h') = performQuery c (export_request path format) h
      in case err of
           Some e \<Rightarrow> (([], Some e), h')
         | None \<Rightarrow> (let (notebookContent, err') = unmarshal resp
                    in ((NotebookContent.Content notebookContent, err'), h')))"

definition mkdirs_request :: "string \<Rightarrow> request" where
  "mkdirs_request path =
     \<lparr>httpMethod = MethodPost, endpoint = ''/workspace/mkdirs'', apiVersion = ''2.0'',
      data = PathData path\<rparr>"

text \<open>
  \<open>Mkdirs\<close> takes the package-level mutex \<open>mkdirMtx\<close> before the request and releases it
  (deferred) on return. In this sequential model the mutex is a flag beside the history:
  \<open>Lock\<close> on a held mutex never returns (\<open>None\<close>), otherwise the flag is set during the
  request and cleared again by the deferred \<open>Unlock\<close>.
\<close>

definition Mkdirs ::
  "'e client \<Rightarrow> string \<Rightarrow> bool \<times> 'e history \<Rightarrow> ('e option \<times> bool \<times> 'e history) option" where
  "Mkdirs c path s =
     (case s of (locked, h) \<Rightarrow>
        if locked then None
        else (let ((resp, err), h') = performQuery c (mkdirs_request path) h
              in Some (err, False, h')))"

definition list_request :: "string \<Rightarrow> request" where
  "list_request path =
     \<lparr>httpMethod = MethodGet, endpoint = ''/workspace/list'', apiVersion = ''2.0'',
      data = PathData path\<rparr>"

definition list ::
  "'e client \<Rightarrow> (WorkspaceObjectStatus list, 'e) unmarshal \<Rightarrow> string \<Rightarrow> 'e history
     \<Rightarrow> (WorkspaceObjectStatus list \<times> 'e option) \<times> 'e history" where
  "list c unmarshal path h =
     (let ((resp, err), h') = performQuery c (list_request path) h
      in case err of
           Some e \<Rightarrow> (([], Some e), h')
         | None \<Rightarrow> (unmarshal resp, h'))"

text \<open>
  \<open>recursiveAddPaths\<close> calls itself from inside its \<open>range\<close> loop, and nothing bounds the
  depth of the remote tree, so the recursion is bounded by fuel: the number of nested
  calls allowed. \<open>recursiveAddPaths_range\<close> is the loop, over the entries still to visit.
  The state is the slice behind \<open>pathList\<close> and the history. The first component of the
  result is \<open>None\<close> when the fuel ran out (the call has not returned), \<open>Some err\<close> when the
  call returned \<open>err\<close>; the state reached is given in both cases.
\<close>

fun recursiveAddPaths ::
  "nat \<Rightarrow> 'e client \<Rightarrow> (WorkspaceObjectStatus list, 'e) unmarshal \<Rightarrow> string
     \<Rightarrow> WorkspaceObjectStatus list \<times> 'e history
     \<Rightarrow> 'e option option \<times> WorkspaceObjectStatus list \<times> 'e history"
and recursiveAddPaths_range ::
  "nat \<Rightarrow> 'e client \<Rightarrow> (WorkspaceObjectStatus list, 'e) unmarshal \<Rightarrow> WorkspaceObjectStatus list
     \<Rightarrow> WorkspaceObjectStatus list \<times> 'e history
     \<Rightarrow> 'e option option \<times> WorkspaceObjectStatus list \<times> 'e history"
where
  "recursiveAddPaths 0 c unmarshal path s = (None, s)"
| "recursiveAddPaths (Suc fuel) c unmarshal path (pathList, h) =
     (case list c unmarshal path h of
        ((notebookInfoList, Some e), h') \<Rightarrow> (Some (Some e), pathList, h')
      | ((notebookInfoList, None), h') \<Rightarrow>
          recursiveAddPaths_range fuel c unmarshal notebookInfoList (pathList, h'))"
| "recursiveAddPaths_range fuel c unmarshal [] s = (Some None, s)"
| "recursiveAddPaths_range fuel c unmarshal (v # vs) (pathList, h) =
     (if ObjectType v = Notebook then
        recursiveAddPaths_range fuel c unmarshal vs (pathList @ [v], h)
      else if ObjectType v = Directory then
        (case recursiveAddPaths fuel c unmarshal (WorkspaceObjectStatus.Path v) (pathList, h) of
           (None, s') \<Rightarrow> (None, s')
         | (Some (Some e), s') \<Rightarrow> (Some (Some e), s')
         | (Some None, s') \<Rightarrow> recursiveAddPaths_range fuel c unmarshal vs s')
      else recursiveAddPaths_range fuel c unmarshal vs (pathList, h))"

definition List ::
  "nat \<Rightarrow> 'e client \<Rightarrow> (WorkspaceObjectStatus list, 'e) unmarshal \<Rightarrow> string \<Rightarrow> bool \<Rightarrow> 'e history
     \<Rightarrow> (WorkspaceObjectStatus list \<times> 'e option) option \<times> 'e history" where
  "List fuel c unmarshal path recursive h =
     (if recursive then
        (case recursiveAddPaths fuel c unmarshal path ([], h) of
           (None, paths, h') \<Rightarrow> (None, h')
         | (Some (Some e), paths, h') \<Rightarrow> (Some ([], Some e), h')
         | (Some None, paths, h') \<Rightarrow> (Some (paths, None), h'))
      else (let (r, h') = list c unmarshal path h in (Some r, h')))"

definition delete_request :: "string \<Rightarrow> bool \<Rightarrow> request" where
  "delete_request path recursive =
     \<lparr>httpMethod = MethodPost, endpoint = ''/workspace/delete'', apiVersion = ''2.0'',
      data = DeleteData \<lparr>Path = path, Recursive = recursive\<rparr>\<rparr>"

definition Delete :: "'e client \<Rightarrow> string \<Rightarrow> bool \<Rightarrow> 'e history \<Rightarrow> 'e option \<times> 'e history" where
  "Delete c path recursive h =
     (let ((resp, err), h') = performQuery c (delete_request path recursive) h
      in (err, h'))"

subsection \<open>What a call returns, and the calls of a run\<close>

text \<open>
  \<open>call_error u r\<close> is the error of an operation that decodes the answer \<open>r\<close> of
  \<open>performQuery\<close> with \<open>u\<close>: the error of the HTTP call if there is one, else the error of
  the decoding. \<open>list_result u r\<close> is the pair \<open>list\<close> returns for the answer \<open>r\<close>. A
  stretch of history is \<open>clean\<close> when none of its list calls failed. \<open>trace_ok\<close> relates
  the outcome of a run to the calls it made: a run that returned an error made at least
  one call, the last of them failed with that error and no earlier one failed; any other
  run made no failing call.
\<close>

definition call_error :: "('a, 'e) unmarshal \<Rightarrow> 'e response \<Rightarrow> 'e option" where
  "call_error u r = (case snd r of Some e \<Rightarrow> Some e | None \<Rightarrow> snd (u (fst r)))"

definition list_result :: "('a list, 'e) unmarshal \<Rightarrow> 'e response \<Rightarrow> 'a list \<times> 'e option" where
  "list_result u r = (case snd r of Some e \<Rightarrow> ([], Some e) | None \<Rightarrow> u (fst r))"

definition clean :: "('a, 'e) unmarshal \<Rightarrow> 'e history \<Rightarrow> bool" where
  "clean u new = (\<forall>x\<in>set new. call_error u (snd x) = None)"

definition trace_ok :: "('a, 'e) unmarshal \<Rightarrow> 'e option option \<Rightarrow> 'e history \<Rightarrow> bool" where
  "trace_ok u outcome new =
     (case outcome of
        Some (Some e) \<Rightarrow>
          new \<noteq> [] \<and> clean u (butlast new) \<and> call_error u (snd (last new)) = Some e
      | _ \<Rightarrow> clean u new)"

text \<open>
  Every directory entry that a successful list call of the history returned has a list
  call of its own in the history.
\<close>

definition visits_all_listed_directories ::
  "(WorkspaceObjectStatus list, 'e) unmarshal \<Rightarrow> 'e history \<Rightarrow> bool" where
  "visits_all_listed_directories u calls =
     (\<forall>x\<in>set calls. \<forall>v\<in>set (fst (list_result u (snd x))).
        call_error u (snd x) = None \<longrightarrow> ObjectType v = Directory \<longrightarrow>
        list_request (WorkspaceObjectStatus.Path v) \<in> fst ` set calls)"

subsection \<open>Remote trees\<close>

text \<open>
  A remote whose answers do not change over time is a function of the request alone.
  Such a remote holds the finite tree \<open>ts\<close> under \<open>path\<close> when listing \<open>path\<close> succeeds
  with the roots of \<open>ts\<close>, in this order, and so on below every root that is a directory;
  an entry that is not a directory has nothing below it. The entries of a tree are listed
  in depth-first order, a directory before what it holds.
\<close>

definition static :: "(request \<Rightarrow> 'e response) \<Rightarrow> 'e client" where
  "static ls h req = ls req"

datatype wtree = Node (root: WorkspaceObjectStatus) (children: "wtree list")

definition listing ::
  "(request \<Rightarrow> 'e response) \<Rightarrow> (WorkspaceObjectStatus list, 'e) unmarshal \<Rightarrow> string \<Rightarrow> wtree list \<Rightarrow> bool" where
  "listing ls u path ts = (list_result u (ls (list_request path)) = (map root ts, None))"

fun serves ::
  "(request \<Rightarrow> 'e response) \<Rightarrow> (WorkspaceObjectStatus list, 'e) unmarshal \<Rightarrow> wtree \<Rightarrow> bool" where
  "serves ls u (Node v ts) =
     (if ObjectType v = Directory
      then listing ls u (WorkspaceObjectStatus.Path v) ts \<and> (\<forall>t\<in>set ts. serves ls u t)
      else ts = [])"

definition remote_tree ::
  "(request \<Rightarrow> 'e response) \<Rightarrow> (WorkspaceObjectStatus list, 'e) unmarshal \<Rightarrow> string \<Rightarrow> wtree list \<Rightarrow> bool" where
  "remote_tree ls u path ts = (listing ls u path ts \<and> (\<forall>t\<in>set ts. serves ls u t))"

fun entries :: "wtree \<Rightarrow> WorkspaceObjectStatus list" where
  "entries (Node v ts) = v # concat (map entries ts)"

definition notebooks_of :: "wtree list \<Rightarrow> WorkspaceObjectStatus list" where
  "notebooks_of ts = filter (\<lambda>v. ObjectType v = Notebook) (concat (map entries ts))"

definition directories_of :: "wtree list \<Rightarrow> WorkspaceObjectStatus list" where
  "directories_of ts = filter (\<lambda>v. ObjectType v = Directory) (concat (map entries ts))"

fun height :: "wtree \<Rightarrow> nat" where
  "height (Node v ts) = Suc (foldr max (map height ts) 0)"

definition height_forest :: "wtree list \<Rightarrow> nat" where
  "height_forest ts = foldr max (map height ts) 0"

text \<open>
  The list calls of a depth-first walk from \<open>path\<close> over the tree \<open>ts\<close>: one for \<open>path\<close>,
  then one for every directory entry, in depth-first order, each with the answer of the
  remote.
\<close>

definition dfs_calls_below :: "(request \<Rightarrow> 'e response) \<Rightarrow> wtree list \<Rightarrow> 'e history" where
  "dfs_calls_below ls ts =
     map (\<lambda>q. (list_request q, ls (list_request q)))
       (map WorkspaceObjectStatus.Path (directories_of ts))"

definition dfs_calls :: "(request \<Rightarrow> 'e response) \<Rightarrow> string \<Rightarrow> wtree list \<Rightarrow> 'e history" where
  "dfs_calls ls path ts = (list_request path, ls (list_request path)) # dfs_calls_below ls ts"

text \<open>
  Leaving out of every decoded listing the entries that are neither notebooks nor
  directories.
\<close>

definition notebook_or_directory :: "WorkspaceObjectStatus \<Rightarrow> bool" where
  "notebook_or_directory v = (ObjectType v = Notebook \<or> ObjectType v = Directory)"

definition without_others ::
  "(WorkspaceObjectStatus list, 'e) unmarshal \<Rightarrow> (WorkspaceObjectStatus list, 'e) unmarshal" where
  "without_others u b = (filter notebook_or_directory (fst (u b)), snd (u b))"

subsection \<open>The HTTP call\<close>

text \<open>
  Modelled from the spec: \<open>DBApiClient.performQuery\<close> is not among the sources. The spec
  says that an operation "fails with a remote-API error on any non-success HTTP status or
  malformed body". The HTTP exchange gives a status code and a body; which codes are a
  success and which bodies are well-formed is not said, so both are parameters. A failed
  call returns no body.
\<close>

record http_response =
  status :: nat
  body :: bytes

datatype api_error = RemoteAPIError http_response

definition remote_api ::
  "(api_error history \<Rightarrow> request \<Rightarrow> http_response) \<Rightarrow> (nat \<Rightarrow> bool) \<Rightarrow> (bytes \<Rightarrow> bool)
     \<Rightarrow> api_error client" where
  "remote_api exchange success well_formed h req =
     (let r = exchange h req
      in if success (status r) \<and> well_formed (body r) then (body r, None)
         else ([], Some (RemoteAPIError r)))"

subsection \<open>Example remotes\<close>

text \<open>
  A small workspace: \<open>/\<close> holds the notebook \<open>/a\<close> and the directories \<open>/d\<close> and \<open>/e\<close>;
  \<open>/d\<close> holds the notebook \<open>/d/b\<close>; \<open>/e\<close> is empty. The broken remote answers the same,
  except that listing \<open>/d\<close> fails. The mixed remote lists a library beside a notebook
  and a directory under \<open>/\<close>.
\<close>

definition nbA :: WorkspaceObjectStatus where
  "nbA = \<lparr>ObjectType = Notebook, Path = ''/a'', Language = ''PYTHON'', Format = ''SOURCE''\<rparr>"

definition nbB :: WorkspaceObjectStatus where
  "nbB = \<lparr>ObjectType = Notebook, Path = ''/d/b'', Language = ''SQL'', Format = ''SOURCE''\<rparr>"

definition dirD :: WorkspaceObjectStatus where
  "dirD = \<lparr>ObjectType = Directory, Path = ''/d'', Language = [], Format = []\<rparr>"

definition dirE :: WorkspaceObjectStatus where
  "dirE = \<lparr>ObjectType = Directory, Path = ''/e'', Language = [], Format = []\<rparr>"

definition libL :: WorkspaceObjectStatus where
  "libL = \<lparr>ObjectType = OtherType ''LIBRARY'', Path = ''/l'', Language = [], Format = []\<rparr>"

definition example_unmarshal :: "(WorkspaceObjectStatus list, string) unmarshal" where
  "example_unmarshal b =
     (if b = [1] then ([nbA, dirD, dirE], None)
      else if b = [2] then ([nbB], None)
      else if b = [3] then ([], None)
      else if b = [4] then ([nbA, libL, dirE], None)
      else ([], Some ''invalid JSON''))"

definition example_remote :: "request \<Rightarrow> string response" where
  "example_remote req =
     (if req = list_request ''/'' then ([1], None)
      else if req = list_request ''/d'' then ([2], None)
      else if req = list_request ''/e'' then ([3], None)
      else ([], Some ''404''))"

definition broken_remote :: "request \<Rightarrow> string response" where
  "broken_remote req =
     (if req = list_request ''/'' then ([1], None)
      else if req = list_request ''/d'' then ([], Some ''503'')
      else if req = list_request ''/e'' then ([3], None)
      else ([], Some ''404''))"

definition mixed_remote :: "request \<Rightarrow> string response" where
  "mixed_remote req =
     (if req = list_request ''/'' then ([4], None)
      else if req = list_request ''/e'' then ([3], None)
      else ([], Some ''404''))"

definition example_tree :: "wtree list" where
  "example_tree = [Node nbA [], Node dirD [Node nbB []], Node dirE []]"

text \<open>
  An HTTP exchange that succeeds on the first call, answers 200 with a body that is not
  well-formed on the second, and 500 afterwards; a status is a success when it is 2xx,
  and the only well-formed body is the empty one.
\<close>

definition example_exchange :: "api_error history \<Rightarrow> request \<Rightarrow> http_response" where
  "example_exchange h req =
     (if h = [] then \<lparr>status = 200, body = []\<rparr>
      else if length h = 1 then \<lparr>status = 200, body = [7]\<rparr>
      else \<lparr>status = 500, body = []\<rparr>)"

definition success_2xx :: "nat \<Rightarrow> bool" where
  "success_2xx n = (200 \<le> n \<and> n < 300)"

definition empty_body :: "bytes \<Rightarrow> bool" where
  "empty_body b = (b = [])"

section \<open>Properties\<close>

subsection \<open>The calls of the operations\<close>

lemma list_eq:
  "list c u p h =
     (list_result u (c h (list_request p)), h @ [(list_request p, c h (list_request p))])"
  by (simp add: list_def performQuery_def list_result_def Let_def split: prod.splits option.splits)

lemma list_result_error: "snd (list_result u r) = call_error u r"
  by (simp add: list_result_def call_error_def split: option.splits)

lemma recursiveAddPaths_Suc:
  "recursiveAddPaths (Suc fuel) c u path (pathList, h) =
     (case list_result u (c h (list_request path)) of
        (objs, Some e) \<Rightarrow>
          (Some (Some e), pathList, h @ [(list_request path, c h (list_request path))])
      | (objs, None) \<Rightarrow>
          recursiveAddPaths_range fuel c u objs
            (pathList, h @ [(list_request path, c h (list_request path))]))"
  by (simp add: list_eq split: prod.splits option.splits)

lemma trace_ok_append:
  "clean u n1 \<Longrightarrow> trace_ok u st n2 \<Longrightarrow> trace_ok u st (n1 @ n2)"
  by (auto simp: trace_ok_def clean_def butlast_append split: option.splits)

text \<open>The history only grows, and the outcome of a run fits the calls it added.\<close>

lemma run_trace:
  "\<exists>new. snd (snd (recursiveAddPaths fuel c u p s)) = snd s @ new \<and>
      trace_ok u (fst (recursiveAddPaths fuel c u p s)) new"
  "\<exists>new. snd (snd (recursiveAddPaths_range fuel c u vs s)) = snd s @ new \<and>
      trace_ok u (fst (recursiveAddPaths_range fuel c u vs s)) new"
proof (induction fuel c u p s and fuel c u vs s rule: recursiveAddPaths_recursiveAddPaths_range.induct)
  case (1 c unmarshal path s)
  then show ?case by (simp add: trace_ok_def clean_def)
next
  case (2 fuel c u path pathList h)
  let ?r = "c h (list_request path)"
  let ?h' = "h @ [(list_request path, ?r)]"
  obtain objs err where lr: "list_result u ?r = (objs, err)"
    by (cases "list_result u ?r")
  then have ce: "call_error u ?r = err"
    by (simp add: list_result_error [symmetric])
  show ?case
  proof (cases err)
    case None
    have eq: "recursiveAddPaths (Suc fuel) c u path (pathList, h) =
        recursiveAddPaths_range fuel c u objs (pathList, ?h')"
      by (simp add: list_eq lr None)
    from 2 [of "(objs, None)" ?h' objs None]
    obtain new where n:
      "snd (snd (recursiveAddPaths_range fuel c u objs (pathList, ?h'))) = ?h' @ new"
      "trace_ok u (fst (recursiveAddPaths_range fuel c u objs (pathList, ?h'))) new"
      by (auto simp: list_eq lr None)
    have "clean u [(list_request path, ?r)]"
      by (simp add: clean_def ce None)
    from trace_ok_append [OF this n(2)] n(1) show ?thesis
      unfolding eq by (intro exI [of _ "(list_request path, ?r) # new"]) simp
  next
    case (Some e)
    have eq: "recursiveAddPaths (Suc fuel) c u path (pathList, h) =
        (Some (Some e), pathList, ?h')"
      by (simp add: list_eq lr Some)
    show ?thesis unfolding eq
      by (intro exI [of _ "[(list_request path, ?r)]"]) (simp add: trace_ok_def clean_def ce Some)
  qed
next
  case (3 fuel c unmarshal s)
  then show ?case by (simp add: trace_ok_def clean_def)
next
  case (4 fuel c u v vs pathList h)
  show ?case
  proof (cases "ObjectType v = Notebook")
    case True
    with 4(1) show ?thesis by simp
  next
    case nb: False
    show ?thesis
    proof (cases "ObjectType v = Directory")
      case False
      with nb 4(4) show ?thesis by simp
    next
      case True
      obtain st pl' h' where
        r: "recursiveAddPaths fuel c u (WorkspaceObjectStatus.Path v) (pathList, h) = (st, pl', h')"
        by (metis prod_cases3)
      from 4(2) [OF nb True] r obtain n1 where n1: "h' = h @ n1" "trace_ok u st n1"
        by auto
      show ?thesis
      proof (cases "st = Some None")
        case False
        then have "recursiveAddPaths_range fuel c u (v # vs) (pathList, h) = (st, pl', h')"
          using nb True r by (auto split: option.splits)
        with n1 show ?thesis by auto
      next
        case sn: True
        then have eq: "recursiveAddPaths_range fuel c u (v # vs) (pathList, h) =
            recursiveAddPaths_range fuel c u vs (pl', h')"
          using nb True r by simp
        from 4(3) [OF nb True r [symmetric, unfolded sn] refl refl]
        obtain n2 where n2:
          "snd (snd (recursiveAddPaths_range fuel c u vs (pl', h'))) = h' @ n2"
          "trace_ok u (fst (recursiveAddPaths_range fuel c u vs (pl', h'))) n2"
          by auto
        have "clean u n1" using n1(2) sn by (simp add: trace_ok_def)
        from trace_ok_append [OF this n2(2)] n2(1) n1(1) show ?thesis
          unfolding eq by (intro exI [of _ "n1 @ n2"]) simp
      qed
    qed
  qed
qed

text \<open>The same for \<open>List\<close>, with the calls of the run read off the final history.\<close>

lemma List_recursive_trace:
  "take (length h) (snd (List fuel c u path True h)) = h"
  "trace_ok u (case fst (List fuel c u path True h) of None \<Rightarrow> None | Some r \<Rightarrow> Some (snd r))
     (drop (length h) (snd (List fuel c u path True h)))"
  "fst (List fuel c u path True h) = Some (objs, Some e) \<Longrightarrow> objs = []"
proof -
  obtain st pl h' where r: "recursiveAddPaths fuel c u path ([], h) = (st, pl, h')"
    by (metis prod_cases3)
  from run_trace(1) [of fuel c u path "([], h)"] r
  obtain new where n: "h' = h @ new" "trace_ok u st new" by auto
  have L: "List fuel c u path True h =
      (case st of None \<Rightarrow> None | Some None \<Rightarrow> Some (pl, None) | Some (Some e) \<Rightarrow> Some ([], Some e), h')"
    by (simp add: List_def r split: option.splits)
  show "take (length h) (snd (List fuel c u path True h)) = h"
    by (simp add: L n)
  have "(case fst (List fuel c u path True h) of None \<Rightarrow> None | Some r \<Rightarrow> Some (snd r)) = st"
    by (simp add: L split: option.splits)
  with n show "trace_ok u (case fst (List fuel c u path True h) of None \<Rightarrow> None | Some r \<Rightarrow> Some (snd r))
     (drop (length h) (snd (List fuel c u path True h)))"
    by (simp add: L)
  show "fst (List fuel c u path True h) = Some (objs, Some e) \<Longrightarrow> objs = []"
    by (auto simp: L split: option.splits)
qed

text \<open>A run that returned does the same with more fuel.\<close>

lemma fuel_Suc:
  "fst (recursiveAddPaths fuel c u p s) \<noteq> None \<Longrightarrow>
     recursiveAddPaths (Suc fuel) c u p s = recursiveAddPaths fuel c u p s"
  "fst (recursiveAddPaths_range fuel c u vs s) \<noteq> None \<Longrightarrow>
     recursiveAddPaths_range (Suc fuel) c u vs s = recursiveAddPaths_range fuel c u vs s"
proof (induction fuel c u p s and fuel c u vs s rule: recursiveAddPaths_recursiveAddPaths_range.induct)
  case (1 c unmarshal path s)
  then show ?case by simp
next
  case (2 fuel c u path pathList h)
  let ?r = "c h (list_request path)"
  obtain objs err where lr: "list_result u ?r = (objs, err)"
    by (cases "list_result u ?r")
  show ?case
  proof (cases err)
    case None
    from 2(1) [of "(objs, None)" "h @ [(list_request path, ?r)]" objs None] 2(2)
    show ?thesis
      by (simp add: list_eq lr None recursiveAddPaths_Suc del: recursiveAddPaths.simps)
  next
    case (Some e)
    then show ?thesis
      by (simp add: lr recursiveAddPaths_Suc del: recursiveAddPaths.simps)
  qed
next
  case (3 fuel c unmarshal s)
  then show ?case by simp
next
  case (4 fuel c u v vs pathList h)
  show ?case
  proof (cases "ObjectType v = Notebook")
    case True
    with 4(1,5) show ?thesis by simp
  next
    case nb: False
    show ?thesis
    proof (cases "ObjectType v = Directory")
      case False
      with nb 4(4,5) show ?thesis by simp
    next
      case True
      obtain st pl' h' where
        r: "recursiveAddPaths fuel c u (WorkspaceObjectStatus.Path v) (pathList, h) = (st, pl', h')"
        by (metis prod_cases3)
      from 4(5) nb True r have st: "st \<noteq> None"
        by (auto split: option.splits)
      with 4(2) [OF nb True] r
      have r': "recursiveAddPaths (Suc fuel) c u (WorkspaceObjectStatus.Path v) (pathList, h) =
          (st, pl', h')"
        by simp
      show ?thesis
      proof (cases "st = Some None")
        case False
        with st obtain e where "st = Some (Some e)"
          by (cases st; cases "the st") auto
        then show ?thesis
          using nb True r r' by (simp del: recursiveAddPaths.simps)
      next
        case sn: True
        from 4(5) nb True r sn
        have "fst (recursiveAddPaths_range fuel c u vs (pl', h')) \<noteq> None"
          by simp
        from 4(3) [OF nb True r [symmetric, unfolded sn] refl refl this]
        show ?thesis
          using nb True r r' sn by (simp del: recursiveAddPaths.simps)
      qed
    qed
  qed
qed

lemma List_fuel_Suc:
  assumes "fst (List fuel c u path True h) \<noteq> None"
  shows "List (Suc fuel) c u path True h = List fuel c u path True h"
proof -
  from assms have "fst (recursiveAddPaths fuel c u path ([], h)) \<noteq> None"
    by (auto simp: List_def split: prod.splits option.splits)
  from fuel_Suc(1) [OF this] show ?thesis
    by (simp add: List_def del: recursiveAddPaths.simps)
qed

text \<open>Whatever a run adds to \<open>pathList\<close> is a notebook.\<close>

lemma run_paths:
  "\<exists>added. fst (snd (recursiveAddPaths fuel c u p s)) = fst s @ added \<and>
      (\<forall>v\<in>set added. ObjectType v = Notebook)"
  "\<exists>added. fst (snd (recursiveAddPaths_range fuel c u vs s)) = fst s @ added \<and>
      (\<forall>v\<in>set added. ObjectType v = Notebook)"
proof (induction fuel c u p s and fuel c u vs s rule: recursiveAddPaths_recursiveAddPaths_range.induct)
  case (1 c unmarshal path s)
  then show ?case by simp
next
  case (2 fuel c u path pathList h)
  then show ?case
    by (auto simp: list_eq split: prod.splits option.splits)
next
  case (3 fuel c unmarshal s)
  then show ?case by simp
next
  case (4 fuel c u v vs pathList h)
  show ?case
  proof (cases "ObjectType v = Notebook")
    case True
    from 4(1) [OF True] obtain added where
      "fst (snd (recursiveAddPaths_range fuel c u vs (pathList @ [v], h))) = (pathList @ [v]) @ added"
      "\<forall>v\<in>set added. ObjectType v = Notebook"
      by auto
    with True show ?thesis by (intro exI [of _ "v # added"]) simp
  next
    case nb: False
    show ?thesis
    proof (cases "ObjectType v = Directory")
      case False
      with nb 4(4) show ?thesis by simp
    next
      case True
      obtain st pl' h' where
        r: "recursiveAddPaths fuel c u (WorkspaceObjectStatus.Path v) (pathList, h) = (st, pl', h')"
        by (metis prod_cases3)
      from 4(2) [OF nb True] r obtain a1 where
        a1: "pl' = pathList @ a1" "\<forall>v\<in>set a1. ObjectType v = Notebook"
        by auto
      show ?thesis
      proof (cases "st = Some None")
        case False
        then have "recursiveAddPaths_range fuel c u (v # vs) (pathList, h) = (st, pl', h')"
          using nb True r by (auto split: option.splits)
        with a1 show ?thesis by auto
      next
        case sn: True
        then have eq: "recursiveAddPaths_range fuel c u (v # vs) (pathList, h) =
            recursiveAddPaths_range fuel c u vs (pl', h')"
          using nb True r by simp
        from 4(3) [OF nb True r [symmetric, unfolded sn] refl refl]
        obtain a2 where
          a2: "fst (snd (recursiveAddPaths_range fuel c u vs (pl', h'))) = pl' @ a2"
          "\<forall>v\<in>set a2. ObjectType v = Notebook"
          by auto
        with a1 show ?thesis
          unfolding eq by (intro exI [of _ "a1 @ a2"]) auto
      qed
    qed
  qed
qed

lemma List_recursive_only_notebooks:
  assumes "fst (List fuel c u path True h) = Some (objs, err)"
  shows "\<forall>v\<in>set objs. ObjectType v = Notebook"
proof -
  obtain st pl h' where r: "recursiveAddPaths fuel c u path ([], h) = (st, pl, h')"
    by (metis prod_cases3)
  from run_paths(1) [of fuel c u path "([], h)"] r
  have "\<forall>v\<in>set pl. ObjectType v = Notebook" by auto
  with assms r show ?thesis
    by (auto simp: List_def split: option.splits)
qed

subsection \<open>Entries that are neither notebooks nor directories\<close>

lemma list_result_without_others:
  "list_result (without_others u) r =
     (filter notebook_or_directory (fst (list_result u r)), snd (list_result u r))"
  by (simp add: list_result_def without_others_def split: option.splits)

lemma without_others_run:
  "recursiveAddPaths fuel c (without_others u) p s = recursiveAddPaths fuel c u p s"
  "recursiveAddPaths_range fuel c (without_others u) (filter notebook_or_directory vs) s =
     recursiveAddPaths_range fuel c u vs s"
proof (induction fuel c u p s and fuel c u vs s rule: recursiveAddPaths_recursiveAddPaths_range.induct)
  case (1 c unmarshal path s)
  then show ?case by simp
next
  case (2 fuel c u path pathList h)
  let ?r = "c h (list_request path)"
  obtain objs err where lr: "list_result u ?r = (objs, err)"
    by (cases "list_result u ?r")
  show ?case
  proof (cases err)
    case None
    from 2 [of "(objs, None)" "h @ [(list_request path, ?r)]" objs None]
    show ?thesis
      by (simp add: list_eq lr None list_result_without_others recursiveAddPaths_Suc
          del: recursiveAddPaths.simps)
  next
    case (Some e)
    then show ?thesis
      by (simp add: lr list_result_without_others recursiveAddPaths_Suc
          del: recursiveAddPaths.simps)
  qed
next
  case (3 fuel c unmarshal s)
  then show ?case by simp
next
  case (4 fuel c u v vs pathList h)
  show ?case
  proof (cases "ObjectType v = Notebook")
    case True
    with 4(1) show ?thesis by (simp add: notebook_or_directory_def)
  next
    case nb: False
    show ?thesis
    proof (cases "ObjectType v = Directory")
      case False
      with nb 4(4) show ?thesis by (simp add: notebook_or_directory_def)
    next
      case True
      obtain st pl' h' where
        r: "recursiveAddPaths fuel c u (WorkspaceObjectStatus.Path v) (pathList, h) = (st, pl', h')"
        by (metis prod_cases3)
      from 4(2) [OF nb True] r
      have r': "recursiveAddPaths fuel c (without_others u) (WorkspaceObjectStatus.Path v)
          (pathList, h) = (st, pl', h')"
        by simp
      show ?thesis
      proof (cases "st = Some None")
        case False
        then show ?thesis
          using nb True r r' by (auto simp: notebook_or_directory_def split: option.splits)
      next
        case sn: True
        from 4(3) [OF nb True r [symmetric, unfolded sn] refl refl]
        show ?thesis using nb True r r' sn by (simp add: notebook_or_directory_def)
      qed
    qed
  qed
qed

subsection \<open>Walking a remote tree\<close>

lemma height_le_forest: "t \<in> set ts \<Longrightarrow> height t \<le> foldr max (map height ts) 0"
  by (induction ts) auto

lemma notebooks_of_Cons:
  "notebooks_of (Node v cs # ts) =
     (if ObjectType v = Notebook then [v] else []) @ notebooks_of cs @ notebooks_of ts"
  by (simp add: notebooks_of_def)

lemma directories_of_Cons:
  "directories_of (Node v cs # ts) =
     (if ObjectType v = Directory then [v] else []) @ directories_of cs @ directories_of ts"
  by (simp add: directories_of_def)

lemma forest_walk:
  assumes step: "\<And>t pl h. t \<in> set ts \<Longrightarrow> ObjectType (root t) = Directory \<Longrightarrow>
      recursiveAddPaths fuel (static ls) u (WorkspaceObjectStatus.Path (root t)) (pl, h) =
        (Some None, pl @ notebooks_of (children t),
         h @ dfs_calls ls (WorkspaceObjectStatus.Path (root t)) (children t))"
    and leaf: "\<And>t. t \<in> set ts \<Longrightarrow> ObjectType (root t) \<noteq> Directory \<Longrightarrow> children t = []"
  shows "recursiveAddPaths_range fuel (static ls) u (map root ts) (pl, h) =
      (Some None, pl @ notebooks_of ts, h @ dfs_calls_below ls ts)"
  using assms
proof (induction ts arbitrary: pl h)
  case Nil
  then show ?case by (simp add: notebooks_of_def dfs_calls_below_def directories_of_def)
next
  case (Cons t ts)
  obtain v cs where t: "t = Node v cs" by (cases t)
  have IH: "\<And>pl h. recursiveAddPaths_range fuel (static ls) u (map root ts) (pl, h) =
      (Some None, pl @ notebooks_of ts, h @ dfs_calls_below ls ts)"
    by (rule Cons.IH) (auto intro: Cons.prems)
  show ?case
  proof (cases "ObjectType v = Directory")
    case True
    from Cons.prems(1) [of t pl h] True t
    show ?thesis
      by (simp add: IH notebooks_of_Cons dfs_calls_def dfs_calls_below_def directories_of_Cons)
  next
    case False
    with Cons.prems(2) [of t] t have "cs = []" by simp
    with False t show ?thesis
      by (simp add: IH notebooks_of_Cons dfs_calls_below_def directories_of_Cons
          notebooks_of_def directories_of_def)
  qed
qed

lemma tree_walk:
  "serves ls u t \<Longrightarrow> ObjectType (root t) = Directory \<Longrightarrow> height t \<le> fuel \<Longrightarrow>
   recursiveAddPaths fuel (static ls) u (WorkspaceObjectStatus.Path (root t)) (pl, h) =
     (Some None, pl @ notebooks_of (children t),
      h @ dfs_calls ls (WorkspaceObjectStatus.Path (root t)) (children t))"
proof (induction t arbitrary: fuel pl h)
  case (Node v ts)
  let ?call = "(list_request (WorkspaceObjectStatus.Path v), ls (list_request (WorkspaceObjectStatus.Path v)))"
  from Node.prems(3) obtain fuel' where
    fuel: "fuel = Suc fuel'" and le: "foldr max (map height ts) 0 \<le> fuel'"
    by (cases fuel) auto
  from Node.prems(1,2) have
    lst: "list_result u (ls (list_request (WorkspaceObjectStatus.Path v))) = (map root ts, None)"
    and sv: "\<And>t. t \<in> set ts \<Longrightarrow> serves ls u t"
    by (auto simp: listing_def)
  have "recursiveAddPaths_range fuel' (static ls) u (map root ts) (pl, h @ [?call]) =
        (Some None, pl @ notebooks_of ts, (h @ [?call]) @ dfs_calls_below ls ts)"
  proof (rule forest_walk)
    fix t pl h assume t: "t \<in> set ts" and d: "ObjectType (root t) = Directory"
    from height_le_forest [OF t] le have "height t \<le> fuel'" by simp
    from Node.IH [OF t sv [OF t] d this]
    show "recursiveAddPaths fuel' (static ls) u (WorkspaceObjectStatus.Path (root t)) (pl, h) =
        (Some None, pl @ notebooks_of (children t),
         h @ dfs_calls ls (WorkspaceObjectStatus.Path (root t)) (children t))" .
  next
    fix t assume t: "t \<in> set ts" and d: "ObjectType (root t) \<noteq> Directory"
    from sv [OF t] d show "children t = []" by (cases t) simp
  qed
  moreover have "static ls h (list_request (WorkspaceObjectStatus.Path v)) =
      ls (list_request (WorkspaceObjectStatus.Path v))"
    by (simp add: static_def)
  ultimately show ?case
    by (simp add: fuel recursiveAddPaths_Suc lst dfs_calls_def del: recursiveAddPaths.simps)
qed

lemma remote_tree_walk:
  assumes "remote_tree ls u path ts" and "height_forest ts < fuel"
  shows "recursiveAddPaths fuel (static ls) u path (pl, h) =
     (Some None, pl @ notebooks_of ts, h @ dfs_calls ls path ts)"
proof -
  let ?t = "Node \<lparr>ObjectType = Directory, Path = path, Language = [], Format = []\<rparr> ts"
  from assms have "serves ls u ?t" "ObjectType (root ?t) = Directory" "height ?t \<le> fuel"
    by (auto simp: remote_tree_def height_forest_def)
  from tree_walk [OF this, of pl h] show ?thesis
    by simp
qed

text \<open>
  In the calls of a walk over a remote tree, every directory entry that a call returned
  has a call of its own.
\<close>

lemma root_in_entries: "root t \<in> set (entries t)"
  by (cases t) simp

lemma directory_entry_listing:
  "serves ls u t \<Longrightarrow> d \<in> set (entries t) \<Longrightarrow> ObjectType d = Directory \<Longrightarrow>
   \<exists>cs. listing ls u (WorkspaceObjectStatus.Path d) cs \<and>
        set (concat (map entries cs)) \<subseteq> set (entries t)"
proof (induction t)
  case (Node v ts)
  show ?case
  proof (cases "d = v")
    case True
    with Node.prems have "listing ls u (WorkspaceObjectStatus.Path d) ts" by simp
    then show ?thesis by (intro exI [of _ ts]) auto
  next
    case False
    with Node.prems(2) obtain t' where t': "t' \<in> set ts" "d \<in> set (entries t')"
      by auto
    then have "ts \<noteq> []" by auto
    with Node.prems(1) t'(1) have "serves ls u t'"
      by (auto split: if_splits)
    from Node.IH [OF t'(1) this t'(2) Node.prems(3)] t'(1) show ?thesis
      by fastforce
  qed
qed

lemma dfs_calls_visit_all:
  assumes "remote_tree ls u path ts"
  shows "visits_all_listed_directories u (dfs_calls ls path ts)"
proof -
  from assms have top: "list_result u (ls (list_request path)) = (map root ts, None)"
    and sv: "\<And>t. t \<in> set ts \<Longrightarrow> serves ls u t"
    by (auto simp: remote_tree_def listing_def)
  have called: "list_request (WorkspaceObjectStatus.Path v) \<in> fst ` set (dfs_calls ls path ts)"
    if "v \<in> set (concat (map entries ts))" "ObjectType v = Directory" for v
    using that by (force simp: dfs_calls_def dfs_calls_below_def directories_of_def)
  have "list_request (WorkspaceObjectStatus.Path v) \<in> fst ` set (dfs_calls ls path ts)"
    if x: "x \<in> set (dfs_calls ls path ts)" and v: "v \<in> set (fst (list_result u (snd x)))"
      and d: "ObjectType v = Directory" for x v
  proof (cases "x = (list_request path, ls (list_request path))")
    case True
    with v top obtain t where "t \<in> set ts" "v = root t" by auto
    with root_in_entries [of t] have "v \<in> set (concat (map entries ts))" by auto
    then show ?thesis using d by (rule called)
  next
    case False
    with x obtain w where w: "w \<in> set (concat (map entries ts))" "ObjectType w = Directory"
      and xw: "x = (list_request (WorkspaceObjectStatus.Path w),
                    ls (list_request (WorkspaceObjectStatus.Path w)))"
      by (auto simp: dfs_calls_def dfs_calls_below_def directories_of_def)
    from w(1) obtain t where t: "t \<in> set ts" "w \<in> set (entries t)" by auto
    from directory_entry_listing [OF sv [OF t(1)] t(2) w(2)]
    obtain cs where cs: "listing ls u (WorkspaceObjectStatus.Path w) cs"
      "set (concat (map entries cs)) \<subseteq> set (entries t)"
      by blast
    from cs(1) xw v obtain t' where t': "t' \<in> set cs" "v = root t'"
      by (auto simp: listing_def)
    with root_in_entries [of t'] have "v \<in> set (concat (map entries cs))" by auto
    with cs(2) t(1) have "v \<in> set (concat (map entries ts))" by auto
    then show ?thesis using d by (rule called)
  qed
  then show ?thesis
    unfolding visits_all_listed_directories_def by blast
qed

section \<open>The claims\<close>

text \<open>
  C1. When the remote holds a finite tree under \<open>path\<close> (every listing of it succeeds),
  the recursive \<open>List\<close>, given fuel beyond the height of the tree, returns without error
  exactly the notebook entries of the tree, in depth-first order; no entry of the result
  is a directory. The tree may be any: that it holds only notebooks besides directories
  is not needed.
\<close>

theorem List_recursive_returns_notebooks:
  assumes "remote_tree ls u path ts" and "height_forest ts < fuel"
  shows "fst (List fuel (static ls) u path True h) = Some (notebooks_of ts, None) \<and>
         (\<forall>v\<in>set (notebooks_of ts). ObjectType v = Notebook \<and> ObjectType v \<noteq> Directory)"
proof -
  from remote_tree_walk [OF assms, of "[]" h]
  have "fst (List fuel (static ls) u path True h) = Some (notebooks_of ts, None)"
    by (simp add: List_def)
  then show ?thesis by (simp add: notebooks_of_def)
qed

theorem List_recursive_returns_notebooks_witness:
  "remote_tree example_remote example_unmarshal ''/'' example_tree \<and>
   height_forest example_tree < 3 \<and>
   fst (List 3 (static example_remote) example_unmarshal ''/'' True []) = Some ([nbA, nbB], None) \<and>
   ObjectType nbA \<noteq> Directory \<and> ObjectType nbB \<noteq> Directory"
proof -
  have t: "remote_tree example_remote example_unmarshal ''/'' example_tree"
    by code_simp
  have f: "height_forest example_tree < 3"
    by code_simp
  have n: "notebooks_of example_tree = [nbA, nbB]"
    by code_simp
  from List_recursive_returns_notebooks [OF t f, of "[]"] t f show ?thesis
    by (simp add: n)
qed

text \<open>
  C2, as amended. When the remote holds a finite tree under \<open>path\<close> (every listing of it
  succeeds), the recursive \<open>List\<close>, given fuel beyond the height of the tree, returns, and
  the list calls it issued are exactly: one for \<open>path\<close>, then one for every directory
  entry of the tree, in depth-first order, siblings in the order the remote lists them.
  So every directory entry that one of these calls returned has a call of its own.
\<close>

theorem List_recursive_depth_first_calls:
  assumes "remote_tree ls u path ts" and "height_forest ts < fuel"
  shows "fst (List fuel (static ls) u path True h) \<noteq> None \<and>
         snd (List fuel (static ls) u path True h) = h @ dfs_calls ls path ts \<and>
         visits_all_listed_directories u (dfs_calls ls path ts)"
  using remote_tree_walk [OF assms, of "[]" h] dfs_calls_visit_all [OF assms(1)]
  by (simp add: List_def)

theorem List_recursive_depth_first_calls_witness:
  "remote_tree example_remote example_unmarshal ''/'' example_tree \<and>
   height_forest example_tree < 3 \<and>
   snd (List 3 (static example_remote) example_unmarshal ''/'' True []) =
     [(list_request ''/'', ([1], None)), (list_request ''/d'', ([2], None)),
      (list_request ''/e'', ([3], None))] \<and>
   visits_all_listed_directories example_unmarshal
     (snd (List 3 (static example_remote) example_unmarshal ''/'' True []))"
proof -
  have t: "remote_tree example_remote example_unmarshal ''/'' example_tree"
    by code_simp
  have f: "height_forest example_tree < 3"
    by code_simp
  have d: "dfs_calls example_remote ''/'' example_tree =
     [(list_request ''/'', ([1], None)), (list_request ''/d'', ([2], None)),
      (list_request ''/e'', ([3], None))]"
    by code_simp
  from List_recursive_depth_first_calls [OF t f, of "[]"] t f show ?thesis
    by (simp add: d)
qed

text \<open>
  C2 as stated fails: on the broken remote the listing of \<open>/\<close> returns the directories
  \<open>/d\<close> and \<open>/e\<close>; the call for \<open>/d\<close> fails, \<open>List\<close> returns that error, and no call was
  issued for \<open>/e\<close>.
\<close>

theorem List_recursive_depth_first_calls_counterexample:
  "fst (List 3 (static broken_remote) example_unmarshal ''/'' True []) = Some ([], Some ''503'') \<and>
   list_result example_unmarshal (broken_remote (list_request ''/'')) = ([nbA, dirD, dirE], None) \<and>
   ObjectType dirE = Directory \<and>
   list_request (WorkspaceObjectStatus.Path dirE)
     \<notin> fst ` set (snd (List 3 (static broken_remote) example_unmarshal ''/'' True [])) \<and>
   \<not> visits_all_listed_directories example_unmarshal
       (snd (List 3 (static broken_remote) example_unmarshal ''/'' True []))"
  by code_simp

text \<open>
  C3. In every run of the recursive \<open>List\<close>, whatever the fuel: the history it was given
  is kept, and if a list call of the run (an entry of the final history at a position
  \<open>i\<close> past the given history) failed with \<open>e\<close>, from the HTTP call or from the decoding,
  then that call is the last entry of the history, so no call came after it, and \<open>List\<close>
  has returned \<open>e\<close>, with a \<open>nil\<close> list.
\<close>

theorem List_recursive_aborts_on_first_error:
  assumes "length h \<le> i" and "i < length (snd (List fuel c u path True h))"
    and "call_error u (snd (snd (List fuel c u path True h) ! i)) = Some e"
  shows "take (length h) (snd (List fuel c u path True h)) = h \<and>
         Suc i = length (snd (List fuel c u path True h)) \<and>
         fst (List fuel c u path True h) = Some ([], Some e)"
proof -
  define h' where "h' = snd (List fuel c u path True h)"
  define new where "new = drop (length h) h'"
  define st where
    "st = (case fst (List fuel c u path True h) of None \<Rightarrow> None | Some r \<Rightarrow> Some (snd r))"
  have pre: "take (length h) h' = h"
    unfolding h'_def by (rule List_recursive_trace(1))
  have tr: "trace_ok u st new"
    unfolding st_def new_def h'_def by (rule List_recursive_trace(2))
  define j where "j = i - length h"
  from assms(1,2) have j: "j < length new" and nth: "new ! j = h' ! i"
    by (simp_all add: j_def new_def h'_def)
  from assms(3) nth have bad: "call_error u (snd (new ! j)) = Some e"
    by (simp add: h'_def)
  from nth_mem [OF j] bad have not_clean: "\<not> clean u new"
    unfolding clean_def by (metis option.distinct(1))
  with tr obtain e' where st: "st = Some (Some e')"
    by (cases st) (auto simp: trace_ok_def split: option.splits)
  with tr have ne: "new \<noteq> []" and cb: "clean u (butlast new)"
    and le: "call_error u (snd (last new)) = Some e'"
    by (simp_all add: trace_ok_def)
  have last_j: "Suc j = length new"
  proof (rule ccontr)
    assume "Suc j \<noteq> length new"
    with j have jb: "j < length (butlast new)" by simp
    then have "butlast new ! j \<in> set (butlast new)" by (rule nth_mem)
    moreover from jb have "butlast new ! j = new ! j" by (simp add: nth_butlast)
    ultimately show False using cb bad
      unfolding clean_def by (metis option.distinct(1))
  qed
  then have "j = length new - 1" by simp
  with last_conv_nth [OF ne] have "last new = new ! j"
    by simp
  with le bad have "e' = e" by simp
  from st obtain objs where r: "fst (List fuel c u path True h) = Some (objs, Some e')"
    unfolding st_def by (cases "fst (List fuel c u path True h)") (auto split: option.splits)
  from List_recursive_trace(3) [OF r] r \<open>e' = e\<close>
  have "fst (List fuel c u path True h) = Some ([], Some e)" by simp
  moreover from last_j assms(1,2) have "Suc i = length h'"
    by (simp add: j_def new_def h'_def)
  ultimately show ?thesis using pre by (simp add: h'_def)
qed

theorem List_recursive_aborts_on_first_error_witness:
  "call_error example_unmarshal
     (snd (snd (List 3 (static broken_remote) example_unmarshal ''/'' True []) ! 1)) = Some ''503'' \<and>
   length (snd (List 3 (static broken_remote) example_unmarshal ''/'' True [])) = 2 \<and>
   fst (List 3 (static broken_remote) example_unmarshal ''/'' True []) = Some ([], Some ''503'')"
proof -
  have a: "length ([] :: string history) \<le> 1" by simp
  have b: "1 < length (snd (List 3 (static broken_remote) example_unmarshal ''/'' True []))"
    by code_simp
  have c: "call_error example_unmarshal
     (snd (snd (List 3 (static broken_remote) example_unmarshal ''/'' True []) ! 1)) = Some ''503''"
    by code_simp
  from List_recursive_aborts_on_first_error [OF a b c] c show ?thesis
    by simp
qed

text \<open>
  C5. Every operation returns the error of its call unchanged. \<open>Create\<close>, \<open>Mkdirs\<close>
  (entered with the mutex free) and \<open>Delete\<close> make exactly one call and return the error
  of \<open>performQuery\<close>, \<open>nil\<close> included. \<open>Read\<close>, \<open>Export\<close> and the non-recursive \<open>List\<close>
  make exactly one call and return the error of \<open>performQuery\<close> if there is one, else
  that of the decoding. A recursive \<open>List\<close> that returned an error made at least one list
  call, the last one failed with exactly that error and none before it failed; one that
  returned no error made no failing call.
\<close>

theorem errors_propagate_unchanged:
  "Create c path content language format overwrite h =
     (snd (c h (import_request path content language format overwrite)),
      h @ [(import_request path content language format overwrite,
            c h (import_request path content language format overwrite))]) \<and>
   snd (fst (Read c us path h)) = call_error us (c h (get_status_request path)) \<and>
   snd (Read c us path h) = h @ [(get_status_request path, c h (get_status_request path))] \<and>
   snd (fst (Export c uc path format h)) = call_error uc (c h (export_request path format)) \<and>
   snd (Export c uc path format h) =
     h @ [(export_request path format, c h (export_request path format))] \<and>
   Mkdirs c path (False, h) =
     Some (snd (c h (mkdirs_request path)), False,
           h @ [(mkdirs_request path, c h (mkdirs_request path))]) \<and>
   Delete c path recursive h =
     (snd (c h (delete_request path recursive)),
      h @ [(delete_request path recursive, c h (delete_request path recursive))]) \<and>
   List fuel c u path False h =
     (Some (list_result u (c h (list_request path))),
      h @ [(list_request path, c h (list_request path))]) \<and>
   snd (list_result u (c h (list_request path))) = call_error u (c h (list_request path)) \<and>
   (fst (List fuel c u path True h) = Some (objs, err) \<longrightarrow>
      trace_ok u (Some err) (drop (length h) (snd (List fuel c u path True h))))"
proof -
  have create: "Create c path content language format overwrite h =
     (snd (c h (import_request path content language format overwrite)),
      h @ [(import_request path content language format overwrite,
            c h (import_request path content language format overwrite))])"
    by (simp add: Create_def performQuery_def Let_def split: prod.splits)
  have read: "snd (fst (Read c us path h)) = call_error us (c h (get_status_request path))"
    "snd (Read c us path h) = h @ [(get_status_request path, c h (get_status_request path))]"
    by (simp_all add: Read_def performQuery_def call_error_def Let_def
        split: prod.splits option.splits)
  have export: "snd (fst (Export c uc path format h)) =
      call_error uc (c h (export_request path format))"
    "snd (Export c uc path format h) =
      h @ [(export_request path format, c h (export_request path format))]"
    by (simp_all add: Export_def performQuery_def call_error_def Let_def
        split: prod.splits option.splits)
  have mkdirs: "Mkdirs c path (False, h) =
     Some (snd (c h (mkdirs_request path)), False,
           h @ [(mkdirs_request path, c h (mkdirs_request path))])"
    by (simp add: Mkdirs_def performQuery_def Let_def split: prod.splits)
  have delete: "Delete c path recursive h =
     (snd (c h (delete_request path recursive)),
      h @ [(delete_request path recursive, c h (delete_request path recursive))])"
    by (simp add: Delete_def performQuery_def Let_def split: prod.splits)
  have flat: "List fuel c u path False h =
     (Some (list_result u (c h (list_request path))),
      h @ [(list_request path, c h (list_request path))])"
    "snd (list_result u (c h (list_request path))) = call_error u (c h (list_request path))"
    by (simp_all add: List_def list_eq list_result_error)
  have deep: "fst (List fuel c u path True h) = Some (objs, err) \<longrightarrow>
      trace_ok u (Some err) (drop (length h) (snd (List fuel c u path True h)))"
  proof
    assume "fst (List fuel c u path True h) = Some (objs, err)"
    with List_recursive_trace(2) [of u fuel c path h] show
      "trace_ok u (Some err) (drop (length h) (snd (List fuel c u path True h)))"
      by simp
  qed
  from create read export mkdirs delete flat deep show ?thesis
    by (intro conjI)
qed

theorem errors_propagate_unchanged_witness:
  "fst (List 3 (static broken_remote) example_unmarshal ''/'' True []) = Some ([], Some ''503'') \<and>
   trace_ok example_unmarshal (Some (Some ''503''))
     (drop (length ([] :: string history))
        (snd (List 3 (static broken_remote) example_unmarshal ''/'' True []))) \<and>
   call_error example_unmarshal
     (snd (last (snd (List 3 (static broken_remote) example_unmarshal ''/'' True [])))) = Some ''503''"
proof -
  have a: "fst (List 3 (static broken_remote) example_unmarshal ''/'' True []) = Some ([], Some ''503'')"
    by code_simp
  from errors_propagate_unchanged [where c = "static broken_remote" and u = example_unmarshal
      and fuel = 3 and path = "''/''" and h = "[]" and objs = "[]" and err = "Some ''503''"] a
  have "trace_ok example_unmarshal (Some (Some ''503''))
     (drop (length ([] :: string history))
        (snd (List 3 (static broken_remote) example_unmarshal ''/'' True [])))"
    by blast
  with a show ?thesis by (simp add: trace_ok_def)
qed

text \<open>
  C6. \<open>Create\<close> makes exactly one call, a POST of \<open>/workspace/import\<close> (version 2.0)
  whose body carries the content, path, language, overwrite flag and format it was given,
  and returns the error of that call: none when the call succeeded. With the HTTP call
  as the spec describes it, \<open>Create\<close> fails with a remote-API error exactly when the
  status is not a success or the body is malformed.
\<close>

theorem Create_submits_import_request:
  "import_request path content language format overwrite =
     \<lparr>httpMethod = MethodPost, endpoint = ''/workspace/import'', apiVersion = ''2.0'',
      data = ImportData \<lparr>Content = content, Path = path, Language = language,
                         Overwrite = overwrite, Format = format\<rparr>\<rparr> \<and>
   Create c path content language format overwrite h =
     (snd (c h (import_request path content language format overwrite)),
      h @ [(import_request path content language format overwrite,
            c h (import_request path content language format overwrite))]) \<and>
   fst (Create (remote_api exchange success well_formed) path content language format overwrite h') =
     (if success (status (exchange h' (import_request path content language format overwrite))) \<and>
         well_formed (body (exchange h' (import_request path content language format overwrite)))
      then None
      else Some (RemoteAPIError (exchange h' (import_request path content language format overwrite))))"
  by (simp add: import_request_def Create_def performQuery_def remote_api_def Let_def
      split: prod.splits)

theorem Create_submits_import_request_witness:
  "fst (Create (remote_api example_exchange success_2xx empty_body)
          ''/a'' ''cHJpbnQoMSk='' ''PYTHON'' ''SOURCE'' True []) = None \<and>
   fst (Create (remote_api example_exchange success_2xx empty_body)
          ''/a'' ''cHJpbnQoMSk='' ''PYTHON'' ''SOURCE'' True
          [(list_request ''/'', ([], None))]) =
     Some (RemoteAPIError \<lparr>status = 200, body = [7]\<rparr>) \<and>
   fst (Create (remote_api example_exchange success_2xx empty_body)
          ''/a'' ''cHJpbnQoMSk='' ''PYTHON'' ''SOURCE'' True
          [(list_request ''/'', ([], None)), (list_request ''/'', ([], None))]) =
     Some (RemoteAPIError \<lparr>status = 500, body = []\<rparr>)"
proof -
  from Create_submits_import_request [where exchange = example_exchange
      and success = success_2xx and well_formed = empty_body and path = "''/a''"
      and content = "''cHJpbnQoMSk=''" and language = "''PYTHON''" and format = "''SOURCE''"
      and overwrite = True and c = "remote_api example_exchange success_2xx empty_body"
      and h = "[]" and h' = "[]", THEN conjunct2, THEN conjunct2]
  have "fst (Create (remote_api example_exchange success_2xx empty_body)
          ''/a'' ''cHJpbnQoMSk='' ''PYTHON'' ''SOURCE'' True []) = None"
    by (simp add: example_exchange_def success_2xx_def empty_body_def)
  moreover from Create_submits_import_request [where exchange = example_exchange
      and success = success_2xx and well_formed = empty_body and path = "''/a''"
      and content = "''cHJpbnQoMSk=''" and language = "''PYTHON''" and format = "''SOURCE''"
      and overwrite = True and c = "remote_api example_exchange success_2xx empty_body"
      and h = "[]" and h' = "[(list_request ''/'', ([], None))]", THEN conjunct2, THEN conjunct2]
  have "fst (Create (remote_api example_exchange success_2xx empty_body)
          ''/a'' ''cHJpbnQoMSk='' ''PYTHON'' ''SOURCE'' True
          [(list_request ''/'', ([], None))]) =
     Some (RemoteAPIError \<lparr>status = 200, body = [7]\<rparr>)"
    by (simp add: example_exchange_def success_2xx_def empty_body_def)
  moreover from Create_submits_import_request [where exchange = example_exchange
      and success = success_2xx and well_formed = empty_body and path = "''/a''"
      and content = "''cHJpbnQoMSk=''" and language = "''PYTHON''" and format = "''SOURCE''"
      and overwrite = True and c = "remote_api example_exchange success_2xx empty_body"
      and h = "[]" and h' = "[(list_request ''/'', ([], None)), (list_request ''/'', ([], None))]", THEN conjunct2, THEN conjunct2]
  have "fst (Create (remote_api example_exchange success_2xx empty_body)
          ''/a'' ''cHJpbnQoMSk='' ''PYTHON'' ''SOURCE'' True
          [(list_request ''/'', ([], None)), (list_request ''/'', ([], None))]) =
     Some (RemoteAPIError \<lparr>status = 500, body = []\<rparr>)"
    by (simp add: example_exchange_def success_2xx_def empty_body_def)
  ultimately show ?thesis by simp
qed

text \<open>
  C7. \<open>Delete\<close> makes exactly one call, a POST of \<open>/workspace/delete\<close> (version 2.0)
  whose body carries the path and the recursive flag it was given, and returns the error
  of that call, \<open>nil\<close> included.
\<close>

theorem Delete_submits_delete_request:
  "delete_request path recursive =
     \<lparr>httpMethod = MethodPost, endpoint = ''/workspace/delete'', apiVersion = ''2.0'',
      data = DeleteData \<lparr>Path = path, Recursive = recursive\<rparr>\<rparr> \<and>
   Delete c path recursive h =
     (snd (c h (delete_request path recursive)),
      h @ [(delete_request path recursive, c h (delete_request path recursive))])"
  by (simp add: delete_request_def Delete_def performQuery_def Let_def split: prod.splits)

text \<open>
  C8. Whenever the recursive \<open>List\<close> returns an error, the list it returns is \<open>nil\<close>,
  whatever \<open>recursiveAddPaths\<close> had collected.
\<close>

theorem List_recursive_error_returns_nil:
  assumes "fst (List fuel c u path True h) = Some (objs, Some e)"
  shows "objs = []"
  using assms by (auto simp: List_def split: prod.splits option.splits)

theorem List_recursive_error_returns_nil_witness:
  "recursiveAddPaths 3 (static broken_remote) example_unmarshal ''/'' ([], []) =
     (Some (Some ''503''), [nbA],
      [(list_request ''/'', ([1], None)), (list_request ''/d'', ([], Some ''503''))]) \<and>
   fst (List 3 (static broken_remote) example_unmarshal ''/'' True []) = Some ([], Some ''503'')"
proof -
  have r: "recursiveAddPaths 3 (static broken_remote) example_unmarshal ''/'' ([], []) =
     (Some (Some ''503''), [nbA],
      [(list_request ''/'', ([1], None)), (list_request ''/d'', ([], Some ''503''))])"
    by code_simp
  then obtain objs where
    l: "fst (List 3 (static broken_remote) example_unmarshal ''/'' True []) = Some (objs, Some ''503'')"
    by (simp add: List_def)
  from List_recursive_error_returns_nil [OF l] l r show ?thesis
    by simp
qed

text \<open>
  C9. When the list call succeeds, the non-recursive \<open>List\<close> returns what decoding the
  answer gave, the whole list as it is and the error of the decoding, after exactly that
  one call: nothing is left out, whatever its type.
\<close>

theorem List_nonrecursive_returns_listing:
  assumes "c h (list_request path) = (b, None)"
  shows "List fuel c u path False h = (Some (u b), h @ [(list_request path, (b, None))])"
  using assms by (simp add: List_def list_eq list_result_def)

theorem List_nonrecursive_returns_listing_witness:
  "static mixed_remote [] (list_request ''/'') = ([4], None) \<and>
   List 0 (static mixed_remote) example_unmarshal ''/'' False [] =
     (Some ([nbA, libL, dirE], None), [(list_request ''/'', ([4], None))])"
proof -
  have a: "static mixed_remote [] (list_request ''/'') = ([4], None)"
    by code_simp
  have u: "example_unmarshal [4] = ([nbA, libL, dirE], None)"
    by code_simp
  from List_nonrecursive_returns_listing [where c = "static mixed_remote" and h = "[]"
      and path = "''/''" and b = "[4]" and fuel = 0 and u = example_unmarshal] a u
  show ?thesis
    by simp
qed

text \<open>
  C10. A recursive \<open>List\<close> behaves as if the entries that are neither notebooks nor
  directories were not in the listings: leaving them out of every decoded listing changes
  neither the result, nor the error, nor the calls made. Every entry of a returned list
  is a notebook.
\<close>

theorem List_recursive_skips_other_types:
  "List fuel c (without_others u) path True h = List fuel c u path True h \<and>
   (fst (List fuel c u path True h) = Some (objs, err) \<longrightarrow>
      (\<forall>v\<in>set objs. ObjectType v = Notebook))"
proof -
  have "List fuel c (without_others u) path True h = List fuel c u path True h"
    by (simp add: List_def without_others_run(1))
  then show ?thesis
    using List_recursive_only_notebooks [of fuel c u path h objs err] by blast
qed

theorem List_recursive_skips_other_types_witness:
  "libL \<in> set (fst (list_result example_unmarshal (mixed_remote (list_request ''/'')))) \<and>
   ObjectType libL \<noteq> Notebook \<and> ObjectType libL \<noteq> Directory \<and>
   List 3 (static mixed_remote) (without_others example_unmarshal) ''/'' True [] =
     List 3 (static mixed_remote) example_unmarshal ''/'' True [] \<and>
   List 3 (static mixed_remote) example_unmarshal ''/'' True [] =
     (Some ([nbA], None), [(list_request ''/'', ([4], None)), (list_request ''/e'', ([3], None))]) \<and>
   ObjectType nbA = Notebook"
proof -
  have a: "libL \<in> set (fst (list_result example_unmarshal (mixed_remote (list_request ''/''))))"
    "ObjectType libL \<noteq> Notebook" "ObjectType libL \<noteq> Directory"
    by code_simp+
  have b: "List 3 (static mixed_remote) example_unmarshal ''/'' True [] =
     (Some ([nbA], None), [(list_request ''/'', ([4], None)), (list_request ''/e'', ([3], None))])"
    by code_simp
  from List_recursive_skips_other_types [where fuel = 3 and c = "static mixed_remote"
      and u = example_unmarshal and path = "''/''" and h = "[]" and objs = "[nbA]" and err = None]
    a b show ?thesis
    by simp
qed

end
